theory Spec2Isabelle
  imports Complex_Main
begin

section \<open>Steering Response Power for a uniform linear array (srp.py)\<close>

text \<open>
  The class \<^verbatim>\<open>SRP\<close> of \<^verbatim>\<open>conventional algorithms/srp.py\<close> estimates a direction of
  arrival by a delay-and-sum sweep over candidate angles.

  Numbers. The source computes in floating point. Here finite values are real and complex
  numbers, so rounding and overflow are left out, and the samples and the spectrum are
  finite. What exact arithmetic leaves undefined is written out: a Python division by
  zero raises \<^verbatim>\<open>ZeroDivisionError\<close>, a torch mean over zero elements is NaN, and a
  torch division of the steering phase by a zero propagation speed gives a non-finite
  phase whose complex exponential is NaN.

  Library calls. \<^verbatim>\<open>torch.stft\<close> (with the reshaping around it) is a parameter, of
  which \<open>stft_stage\<close> writes the reshaping and the rejection of an empty batch out;
  \<^verbatim>\<open>linspace\<close>, \<^verbatim>\<open>mean\<close>, \<^verbatim>\<open>argmax\<close> and boolean-mask indexing are written out
  as torch computes them. The progress bar of \<^verbatim>\<open>tqdm\<close> changes no value and is left
  out.
\<close>

subsection \<open>Errors and values\<close>

text \<open>
  \<open>ValueError\<close> is the exception the source raises itself; \<open>ZeroDivisionError\<close> comes
  from Python's own division; \<open>TorchError\<close> stands for any exception raised inside a
  torch call (a \<^verbatim>\<open>RuntimeError\<close> or an \<^verbatim>\<open>IndexError\<close>).
\<close>

datatype error = ValueError string | ZeroDivisionError | TorchError

definition ebind :: "error + 'a \<Rightarrow> ('a \<Rightarrow> error + 'b) \<Rightarrow> error + 'b" where
  "ebind m f = (case m of Inl e \<Rightarrow> Inl e | Inr v \<Rightarrow> f v)"

text \<open>A tensor entry: a finite value or NaN.\<close>

datatype 'a tval = Fin 'a | NaN

fun tlift2 :: "('a \<Rightarrow> 'b \<Rightarrow> 'c) \<Rightarrow> 'a tval \<Rightarrow> 'b tval \<Rightarrow> 'c tval" where
  "tlift2 f (Fin a) (Fin b) = Fin (f a b)"
| "tlift2 f _ _ = NaN"

definition tsum :: "('a::comm_monoid_add) tval list \<Rightarrow> 'a tval" where
  "tsum xs = foldr (tlift2 (+)) xs (Fin 0)"

text \<open>\<^verbatim>\<open>torch.mean\<close> over one dimension: NaN over zero elements.\<close>

definition torch_mean :: "real tval list \<Rightarrow> real tval" where
  "torch_mean xs = (if xs = [] then NaN else tlift2 (/) (tsum xs) (Fin (real (length xs))))"

text \<open>
  \<^verbatim>\<open>torch.argmax\<close> of a one-dimensional tensor: the first index of the largest entry,
  where a NaN counts as larger than every number; an empty tensor is an error.
\<close>

fun beats :: "real tval \<Rightarrow> real tval \<Rightarrow> bool" where
  "beats (Fin a) (Fin b) = (b < a)"
| "beats NaN (Fin b) = True"
| "beats _ NaN = False"

fun argmax_scan :: "real tval list \<Rightarrow> nat \<Rightarrow> nat \<Rightarrow> real tval \<Rightarrow> nat" where
  "argmax_scan [] i best bv = best"
| "argmax_scan (x # xs) i best bv =
     (if beats x bv then argmax_scan xs (Suc i) i x else argmax_scan xs (Suc i) best bv)"

definition torch_argmax :: "real tval list \<Rightarrow> error + nat" where
  "torch_argmax xs = (case xs of [] \<Rightarrow> Inl TorchError | x # rest \<Rightarrow> Inr (argmax_scan rest 1 0 x))"

text \<open>
  \<^verbatim>\<open>torch.linspace(start, end, steps)\<close>: a negative number of steps is an error, one
  step gives \<open>[start]\<close>.
\<close>

definition torch_linspace :: "real \<Rightarrow> real \<Rightarrow> int \<Rightarrow> error + real list" where
  "torch_linspace start stop steps =
     (if steps < 0 then Inl TorchError
      else if steps = 1 then Inr [start]
      else Inr (map (\<lambda>i. start + real i * ((stop - start) / real_of_int (steps - 1)))
                  [0..<nat steps]))"

text \<open>Python's \<^verbatim>\<open>int()\<close> of a float truncates towards zero.\<close>

definition py_int :: "real \<Rightarrow> int" where
  "py_int r = (if 0 \<le> r then \<lfloor>r\<rfloor> else \<lceil>r\<rceil>)"

definition deg2rad :: "real \<Rightarrow> real" where
  "deg2rad x = x * pi / 180"

text \<open>Indexing a one-dimensional tensor with a boolean mask of its length.\<close>

definition bool_index :: "'a list \<Rightarrow> bool list \<Rightarrow> 'a list" where
  "bool_index xs flags = map fst (filter snd (zip xs flags))"

subsection \<open>Tensors with their shapes\<close>

text \<open>
  A tensor keeps its shape also when a dimension is zero, and the source reads shapes
  (\<^verbatim>\<open>M, _, T = sig_stft.shape\<close>), so the shape is part of the value. Entries outside the
  shape are never read.
\<close>

record waveform =
  n_samples :: nat
  n_channels :: nat
  sample :: "nat \<Rightarrow> nat \<Rightarrow> real"

record tensor3 =
  dim0 :: nat
  dim1 :: nat
  dim2 :: nat
  elem :: "nat \<Rightarrow> nat \<Rightarrow> nat \<Rightarrow> complex"

record matrix =
  n_rows :: nat
  n_cols :: nat
  cell :: "nat \<Rightarrow> nat \<Rightarrow> real tval"

definition zeros :: "nat \<Rightarrow> nat \<Rightarrow> matrix" where
  "zeros r k = \<lparr>n_rows = r, n_cols = k, cell = (\<lambda>f a. Fin 0)\<rparr>"

text \<open>\<^verbatim>\<open>power_map[:, j] = v\<close>\<close>

definition set_col :: "matrix \<Rightarrow> nat \<Rightarrow> real tval list \<Rightarrow> matrix" where
  "set_col pm j v = pm\<lparr>cell := (\<lambda>f a. if a = j then v ! f else cell pm f a)\<rparr>"

text \<open>\<^verbatim>\<open>torch.mean(power_map, dim=0)\<close>: one entry per column.\<close>

definition mean_dim0 :: "matrix \<Rightarrow> real tval list" where
  "mean_dim0 pm = map (\<lambda>a. torch_mean (map (\<lambda>f. cell pm f a) [0..<n_rows pm])) [0..<n_cols pm]"

text \<open>\<^verbatim>\<open>X[:, mask, :]\<close>: the mask must have the length of the indexed dimension.\<close>

definition index_dim1 :: "tensor3 \<Rightarrow> bool list \<Rightarrow> error + tensor3" where
  "index_dim1 X flags =
     (if length flags \<noteq> dim1 X then Inl TorchError
      else let kept = bool_index [0..<dim1 X] flags
           in Inr \<lparr>dim0 = dim0 X, dim1 = length kept, dim2 = dim2 X,
                   elem = (\<lambda>ch k t. elem X ch (kept ! k) t)\<rparr>)"

subsection \<open>The class SRP\<close>

text \<open>
  The attributes set by \<^verbatim>\<open>__init__\<close>. The attribute \<^verbatim>\<open>c\<close> is the field \<open>c_sound\<close>
  here, so that \<open>c\<close> stays free as a variable name.
\<close>

record srp =
  d_inter :: real
  c_sound :: real
  n_fft :: int
  hop_length :: int
  window :: "real list"
  fs :: real
  resolution :: real
  f_low :: real
  f_high :: real

text \<open>\<^verbatim>\<open>torch.hann_window(n)\<close>, periodic.\<close>

definition hann_window :: "int \<Rightarrow> error + real list" where
  "hann_window n =
     (if n < 0 then Inl TorchError
      else if n = 1 then Inr [1]
      else Inr (map (\<lambda>i. (1 - cos (2 * pi * real i / real_of_int n)) / 2) [0..<nat n]))"

text \<open>
  \<^verbatim>\<open>__init__(d_inter, c, n_fft, hop_length, window_length, fs, f_low, f_high, resolution)\<close>:
  it stores its arguments and the square root of the Hann window, and checks nothing.
\<close>

definition SRP_init ::
  "real \<Rightarrow> real \<Rightarrow> int \<Rightarrow> int \<Rightarrow> int \<Rightarrow> real \<Rightarrow> real \<Rightarrow> real \<Rightarrow> real \<Rightarrow> error + srp" where
  "SRP_init d c nfft hop window_length rate flo fhi res =
     ebind (hann_window window_length) (\<lambda>w.
       Inr \<lparr>d_inter = d, c_sound = c, n_fft = nfft, hop_length = hop,
            window = map sqrt w, fs = rate, resolution = res, f_low = flo, f_high = fhi\<rparr>)"

text \<open>\<^verbatim>\<open>spatial_nyquist_check\<close>; the division is Python's, which raises on a zero divisor.\<close>

definition nyquist_msg :: string where
  "nyquist_msg = ''Spatial Nyquist theorem not satisfied!''"

definition spatial_nyquist_check :: "srp \<Rightarrow> error + unit" where
  "spatial_nyquist_check s =
     (if 2 * f_high s = 0 then Inl ZeroDivisionError
      else if d_inter s > c_sound s / (2 * f_high s) then Inl (ValueError nyquist_msg)
      else Inr ())"

text \<open>
  \<^verbatim>\<open>multi_channel_stft\<close>. The parameter \<open>stft\<close> stands for lines 50 to 61: the reshaping
  of the \<open>(T, C)\<close> waveform, \<^verbatim>\<open>torch.stft\<close> with \<open>n_fft\<close>, \<open>hop_length\<close> and the window,
  and the view of its result as a \<open>(C, F, T)\<close> complex tensor; \<open>None\<close> when one of these
  calls raises.
\<close>

type_synonym stft_lib = "int \<Rightarrow> int \<Rightarrow> real list \<Rightarrow> waveform \<Rightarrow> tensor3 option"

definition multi_channel_stft :: "stft_lib \<Rightarrow> srp \<Rightarrow> waveform \<Rightarrow> error + (tensor3 \<times> real list)" where
  "multi_channel_stft stft s x =
     (case stft (n_fft s) (hop_length s) (window s) x of
        None \<Rightarrow> Inl TorchError
      | Some X \<Rightarrow>
          ebind (torch_linspace 0 (fs s / 2) (n_fft s div 2 + 1)) (\<lambda>f_analog.
            let f_use_idx = map (\<lambda>f. f_low s \<le> f \<and> f < f_high s) f_analog
            in ebind (index_dim1 X f_use_idx) (\<lambda>Y.
                 Inr (Y, bool_index f_analog f_use_idx))))"

text \<open>
  One entry of the steering vector (lines 83 to 85) for the sine \<open>theta_sin_j\<close> of the
  angle, the frequency \<open>f\<close> and the channel index \<open>m\<close>. The phase is divided by \<open>c\<close> in
  torch: with \<open>c = 0\<close> it is infinite or NaN, and \<^verbatim>\<open>exp(-1j * phase)\<close> is NaN either way.
\<close>

definition steer_entry :: "srp \<Rightarrow> real \<Rightarrow> real \<Rightarrow> real \<Rightarrow> complex tval" where
  "steer_entry s theta_sin_j f m =
     (if c_sound s = 0 then NaN
      else Fin (exp (- \<i> * complex_of_real
                  (2 * pi * theta_sin_j * d_inter s * (f * m) / c_sound s))))"

text \<open>
  The steering vector of one angle, of shape \<open>(F, C)\<close>: the outer product of \<open>f_analog\<close>
  with the channel indices \<^verbatim>\<open>torch.linspace(0, M - 1, M)\<close>.
\<close>

definition steer_vec :: "srp \<Rightarrow> real \<Rightarrow> real list \<Rightarrow> nat \<Rightarrow> error + complex tval list list" where
  "steer_vec s theta_sin_j f_analog M =
     ebind (torch_linspace 0 (real M - 1) (int M)) (\<lambda>ms.
       Inr (map (\<lambda>f. map (\<lambda>m. steer_entry s theta_sin_j f m) ms) f_analog))"

text \<open>
  The matrix product of line 88 at one \<open>(f, t)\<close>: the row of the \<open>M\<close> channel values times
  the steering column, without conjugation.
\<close>

definition matmul_row_col :: "complex tval list \<Rightarrow> complex tval list \<Rightarrow> complex tval" where
  "matmul_row_col row col = tsum (map (\<lambda>(a, b). tlift2 (*) a b) (zip row col))"

text \<open>
  Lines 88 and 89 for one steering vector \<open>sv\<close>. The spectrum is read in \<open>(F, T, C)\<close>
  order; a spectrum with a single frequency bin is broadcast over the bins of the
  steering vector, as the batched product does. \<open>response_norm\<close> has one entry per
  frequency bin: the mean over the time frames of the magnitude of the response.
\<close>

definition response_complex :: "tensor3 \<Rightarrow> complex tval list list \<Rightarrow> nat \<Rightarrow> nat \<Rightarrow> complex tval" where
  "response_complex sig_stft sv f t =
     matmul_row_col
       (map (\<lambda>m. Fin (elem sig_stft m (if dim1 sig_stft = 1 then 0 else f) t))
            [0..<dim0 sig_stft])
       (sv ! f)"

definition response_norm :: "tensor3 \<Rightarrow> complex tval list list \<Rightarrow> real tval list" where
  "response_norm sig_stft sv =
     map (\<lambda>f. torch_mean (map (\<lambda>t. map_tval cmod (response_complex sig_stft sv f t))
                               [0..<dim2 sig_stft]))
         [0..<length sv]"

text \<open>One pass of the loop body (lines 83 to 90) for the angle index \<open>j\<close>.\<close>

definition sweep_step :: "srp \<Rightarrow> tensor3 \<Rightarrow> real list \<Rightarrow> real list \<Rightarrow> matrix \<Rightarrow> nat \<Rightarrow> error + matrix" where
  "sweep_step s sig_stft f_analog theta_sin power_map j =
     ebind (steer_vec s (theta_sin ! j) f_analog (dim0 sig_stft)) (\<lambda>sv.
       Inr (set_col power_map j
              (map (map_tval (\<lambda>r. r ^ 2)) (response_norm sig_stft sv))))"

fun sweep_loop :: "(matrix \<Rightarrow> nat \<Rightarrow> error + matrix) \<Rightarrow> matrix \<Rightarrow> nat list \<Rightarrow> error + matrix" where
  "sweep_loop body pm [] = Inr pm"
| "sweep_loop body pm (j # js) = ebind (body pm j) (\<lambda>pm'. sweep_loop body pm' js)"

text \<open>Lines 80 to 90: the power map of shape \<open>(F, angles)\<close>, filled column by column.\<close>

definition sweep :: "srp \<Rightarrow> tensor3 \<Rightarrow> real list \<Rightarrow> real list \<Rightarrow> error + matrix" where
  "sweep s sig_stft f_analog theta_sin =
     sweep_loop (sweep_step s sig_stft f_analog theta_sin)
       (zeros (length f_analog) (length theta_sin)) [0..<length theta_sin]"

text \<open>Lines 92 to 95: the mean over frequency, the arg-max and the angle in degrees.\<close>

definition aggregate :: "srp \<Rightarrow> matrix \<Rightarrow> error + (real \<times> real tval list)" where
  "aggregate s power_map =
     (let power_map_mean = mean_dim0 power_map
      in ebind (torch_argmax power_map_mean) (\<lambda>doa_order.
           Inr (real doa_order * resolution s - 90, power_map_mean)))"

text \<open>
  \<^verbatim>\<open>srp_ula\<close>. \<^verbatim>\<open>180 / self.resolution\<close> is Python's division. A spectrum whose
  frequency dimension is neither that of \<open>f_analog\<close> nor 1 cannot be broadcast.
\<close>

definition srp_ula :: "srp \<Rightarrow> tensor3 \<Rightarrow> real list \<Rightarrow> error + (real \<times> real tval list)" where
  "srp_ula s sig_stft f_analog =
     (if resolution s = 0 then Inl ZeroDivisionError
      else ebind (torch_linspace (- 90) 90 (py_int (180 / resolution s + 1))) (\<lambda>theta.
             let theta_sin = map sin (map deg2rad theta)
             in if dim1 sig_stft \<noteq> length f_analog \<and> dim1 sig_stft \<noteq> 1 then Inl TorchError
                else ebind (sweep s sig_stft f_analog theta_sin) (aggregate s)))"

text \<open>\<^verbatim>\<open>forward\<close>\<close>

definition forward :: "stft_lib \<Rightarrow> srp \<Rightarrow> waveform \<Rightarrow> error + (real \<times> real tval list)" where
  "forward stft s x =
     ebind (spatial_nyquist_check s) (\<lambda>_.
       ebind (multi_channel_stft stft s x) (\<lambda>(sig_stft, f_analog).
         srp_ula s sig_stft f_analog))"

subsection \<open>The torch calls of the transform stage\<close>



subsection \<open>Reading the result\<close>


subsection \<open>Small configurations and inputs for the examples\<close>

text \<open>
  \<open>demo_srp d flo fhi res\<close> is the object built by
  \<^verbatim>\<open>SRP(d, c=343, n_fft=4, hop_length=2, window_length=4, fs=8, f_low=flo, f_high=fhi, resolution=res)\<close>:
  three one-sided bins, at 0, 2 and 4 Hz.
\<close>

definition demo_srp :: "real \<Rightarrow> real \<Rightarrow> real \<Rightarrow> real \<Rightarrow> srp" where
  "demo_srp d flo fhi res =
     \<lparr>d_inter = d, c_sound = 343, n_fft = 4, hop_length = 2,
      window = [0, sqrt (1 / 2), 1, sqrt (1 / 2)], fs = 8, resolution = res,
      f_low = flo, f_high = fhi\<rparr>"

text \<open>A waveform of \<open>T\<close> samples and \<open>C\<close> channels, all zero.\<close>

definition silence :: "nat \<Rightarrow> nat \<Rightarrow> waveform" where
  "silence T C = \<lparr>n_samples = T, n_channels = C, sample = (\<lambda>t ch. 0)\<rparr>"

text \<open>A run in which the transform returns the spectrum \<open>X\<close>.\<close>

definition returning :: "tensor3 \<Rightarrow> stft_lib" where
  "returning X = (\<lambda>nfft hop w x. Some X)"

text \<open>The spectrum of shape \<open>(C, F, T)\<close> with the entry \<open>g ch f t\<close> at each position.\<close>

definition spectrum :: "nat \<Rightarrow> nat \<Rightarrow> nat \<Rightarrow> (nat \<Rightarrow> nat \<Rightarrow> nat \<Rightarrow> complex) \<Rightarrow> tensor3" where
  "spectrum C F T g = \<lparr>dim0 = C, dim1 = F, dim2 = T, elem = g\<rparr>"

text \<open>
  The spectrum of a silent waveform: every entry is zero. \<^verbatim>\<open>torch.stft\<close> of a silent
  waveform of 4 samples and 2 channels, with \<open>n_fft = 4\<close> and \<open>hop_length = 2\<close>, is
  \<open>silent_spectrum 2 3 3\<close>.
\<close>

definition silent_spectrum :: "nat \<Rightarrow> nat \<Rightarrow> nat \<Rightarrow> tensor3" where
  "silent_spectrum C F T = spectrum C F T (\<lambda>ch f t. 0)"

section \<open>Basic facts about the model\<close>

subsection \<open>Error propagation\<close>

lemma ebind_Inl [simp]: "ebind (Inl e) f = Inl e"
  by (simp add: ebind_def)

lemma ebind_Inr [simp]: "ebind (Inr v) f = f v"
  by (simp add: ebind_def)

lemma ebind_eq_Inr: "ebind m f = Inr r \<longleftrightarrow> (\<exists>v. m = Inr v \<and> f v = Inr r)"
  by (cases m) simp_all

lemma ebind_eq_Inl: "ebind m f = Inl e \<longleftrightarrow> (m = Inl e \<or> (\<exists>v. m = Inr v \<and> f v = Inl e))"
  by (cases m) auto

lemma linspace_nonneg:
  "0 \<le> n \<Longrightarrow> torch_linspace a b n =
     Inr (if n = 1 then [a] else map (\<lambda>i. a + real i * ((b - a) / real_of_int (n - 1))) [0..<nat n])"
  by (simp add: torch_linspace_def)

lemma linspace_length: "torch_linspace a b n = Inr xs \<Longrightarrow> int (length xs) = n"
  by (auto simp: torch_linspace_def split: if_splits)

lemma linspace_nth:
  "torch_linspace a b n = Inr xs \<Longrightarrow> i < length xs \<Longrightarrow>
     xs ! i = (if n = 1 then a else a + real i * ((b - a) / real_of_int (n - 1)))"
  by (auto simp: torch_linspace_def split: if_splits)

lemma linspace_error: "torch_linspace a b n = Inl e \<Longrightarrow> e = TorchError \<and> n < 0"
  by (auto simp: torch_linspace_def split: if_splits)

lemma steer_vec_total: "\<exists>sv. steer_vec s ts fa M = Inr sv"
  by (simp add: steer_vec_def linspace_nonneg)

lemma sweep_step_total: "\<exists>pm'. sweep_step s X fa ts pm j = Inr pm'"
  using steer_vec_total [of s "ts ! j" fa "dim0 X"]
  by (auto simp: sweep_step_def Let_def)

lemma sweep_loop_total:
  "(\<And>pm j. \<exists>pm'. body pm j = Inr pm') \<Longrightarrow> \<exists>pm'. sweep_loop body pm js = Inr pm'"
proof (induction js arbitrary: pm)
  case Nil
  then show ?case by simp
next
  case (Cons j js)
  obtain pm1 where "body pm j = Inr pm1" using Cons.prems by blast
  then show ?case using Cons.IH [OF Cons.prems] by simp
qed

lemma sweep_total: "\<exists>pm. sweep s X fa ts = Inr pm"
  unfolding sweep_def by (rule sweep_loop_total) (rule sweep_step_total)

lemma sweep_not_error: "sweep s X fa ts \<noteq> Inl e"
  using sweep_total [of s X fa ts] by auto

lemma torch_argmax_error: "torch_argmax xs = Inl e \<Longrightarrow> e = TorchError \<and> xs = []"
  by (auto simp: torch_argmax_def split: list.splits)

lemma aggregate_error: "aggregate s pm = Inl e \<Longrightarrow> e = TorchError"
  by (auto simp: aggregate_def Let_def ebind_eq_Inl dest: torch_argmax_error)

lemma srp_ula_error: "srp_ula s X fa = Inl e \<Longrightarrow> e = ZeroDivisionError \<or> e = TorchError"
  by (auto simp: srp_ula_def Let_def ebind_eq_Inl sweep_not_error split: if_splits
           dest: linspace_error aggregate_error)

lemma index_dim1_error: "index_dim1 X flags = Inl e \<Longrightarrow> e = TorchError"
  by (auto simp: index_dim1_def Let_def split: if_splits)

lemma multi_channel_stft_error: "multi_channel_stft stft s x = Inl e \<Longrightarrow> e = TorchError"
  by (auto simp: multi_channel_stft_def Let_def ebind_eq_Inl split: option.splits
           dest: linspace_error index_dim1_error)

lemma forward_check_fails: "spatial_nyquist_check s = Inl e \<Longrightarrow> forward stft s x = Inl e"
  by (simp add: forward_def)

lemma forward_ValueError:
  "forward stft s x = Inl (ValueError m) \<Longrightarrow> spatial_nyquist_check s = Inl (ValueError m)"
  by (cases "spatial_nyquist_check s")
     (auto simp: forward_def ebind_eq_Inl dest: multi_channel_stft_error srp_ula_error)

lemma forward_Inr:
  assumes "forward stft s x = Inr r"
  shows "spatial_nyquist_check s = Inr ()
       \<and> (\<exists>Y fa. multi_channel_stft stft s x = Inr (Y, fa) \<and> srp_ula s Y fa = Inr r)"
proof -
  have chk: "spatial_nyquist_check s = Inr ()"
    using assms by (cases "spatial_nyquist_check s") (simp_all add: forward_def)
  then show ?thesis
    using assms by (auto simp: forward_def ebind_eq_Inr)
qed

subsection \<open>Sums, means and the sweep loop\<close>

lemma tsum_Fin: "tsum (map Fin xs) = Fin (sum_list xs)"
  by (induction xs) (simp_all add: tsum_def)

lemma torch_mean_Fin:
  "xs \<noteq> [] \<Longrightarrow> torch_mean (map Fin xs) = Fin (sum_list xs / real (length xs))"
  by (simp add: torch_mean_def tsum_Fin)

lemma sum_list_upt: "sum_list (map f [0..<n]) = (\<Sum>i<n. f i)"
  by (simp add: interv_sum_list_conv_sum_set_nat atLeast0LessThan)

lemma linspace_channels: "torch_linspace 0 (real M - 1) (int M) = Inr (map real [0..<M])"
proof (cases "M = 1")
  case True
  then show ?thesis by (simp add: torch_linspace_def)
next
  case False
  then have "real i * ((real M - 1) / real_of_int (int M - 1)) = real i" for i
    by (cases "M = 0") simp_all
  with False show ?thesis by (simp add: torch_linspace_def)
qed

lemma steer_vec_eq:
  "steer_vec s w fa M = Inr (map (\<lambda>f. map (\<lambda>m. steer_entry s w f (real m)) [0..<M]) fa)"
  by (simp add: steer_vec_def linspace_channels comp_def)

lemma matmul_Fin:
  "matmul_row_col (map (\<lambda>m. Fin (a m)) ms) (map (\<lambda>m. Fin (b m)) ms)
     = Fin (sum_list (map (\<lambda>m. a m * b m) ms))"
proof -
  have "map (\<lambda>(a, b). tlift2 (*) a b) (zip (map (\<lambda>m. Fin (a m)) ms) (map (\<lambda>m. Fin (b m)) ms))
        = map Fin (map (\<lambda>m. a m * b m) ms)"
    by (induction ms) simp_all
  then show ?thesis by (simp add: matmul_row_col_def tsum_Fin del: map_map)
qed

lemma sweep_loop_cols:
  assumes body: "\<And>pm j. body pm j = Inr (set_col pm j (v j))"
  shows "\<exists>pm'. sweep_loop body pm js = Inr pm' \<and> n_rows pm' = n_rows pm \<and> n_cols pm' = n_cols pm
           \<and> (\<forall>f a. cell pm' f a = (if a \<in> set js then v a ! f else cell pm f a))"
proof (induction js arbitrary: pm)
  case Nil
  then show ?case by simp
next
  case (Cons j js)
  obtain pm' where pm': "sweep_loop body (set_col pm j (v j)) js = Inr pm'"
      "n_rows pm' = n_rows (set_col pm j (v j))" "n_cols pm' = n_cols (set_col pm j (v j))"
      "\<forall>f a. cell pm' f a = (if a \<in> set js then v a ! f else cell (set_col pm j (v j)) f a)"
    using Cons.IH [of "set_col pm j (v j)"] by blast
  have "sweep_loop body pm (j # js) = Inr pm'"
    using pm'(1) by (simp add: body)
  moreover have "n_rows pm' = n_rows pm" "n_cols pm' = n_cols pm"
    using pm'(2,3) by (simp_all add: set_col_def)
  moreover have "\<forall>f a. cell pm' f a = (if a \<in> set (j # js) then v a ! f else cell pm f a)"
    using pm'(4) by (auto simp: set_col_def)
  ultimately show ?case by blast
qed

lemma sweep_cells:
  "\<exists>pm. sweep s X fa ts = Inr pm \<and> n_rows pm = length fa \<and> n_cols pm = length ts
     \<and> (\<forall>f a. a < length ts \<longrightarrow> f < length fa \<longrightarrow>
           cell pm f a = map_tval (\<lambda>r. r ^ 2)
             (response_norm X
                (map (\<lambda>f. map (\<lambda>m. steer_entry s (ts ! a) f (real m)) [0..<dim0 X]) fa) ! f))"
proof -
  let ?sv = "\<lambda>a. map (\<lambda>f. map (\<lambda>m. steer_entry s (ts ! a) f (real m)) [0..<dim0 X]) fa"
  let ?v = "\<lambda>a. map (map_tval (\<lambda>r. r ^ 2)) (response_norm X (?sv a))"
  have body: "sweep_step s X fa ts pm j = Inr (set_col pm j (?v j))" for pm j
    by (simp add: sweep_step_def steer_vec_eq)
  have len: "length (response_norm X (?sv a)) = length fa" for a
    by (simp add: response_norm_def)
  from sweep_loop_cols [of "sweep_step s X fa ts" ?v "zeros (length fa) (length ts)" "[0..<length ts]", OF body]
  obtain pm where pm: "sweep s X fa ts = Inr pm" "n_rows pm = length fa" "n_cols pm = length ts"
     and cells: "\<forall>f a. cell pm f a = (if a \<in> set [0..<length ts] then ?v a ! f
                     else cell (zeros (length fa) (length ts)) f a)"
    by (auto simp: sweep_def zeros_def)
  have "cell pm f a = map_tval (\<lambda>r. r ^ 2) (response_norm X (?sv a) ! f)"
    if "a < length ts" "f < length fa" for f a
    using that cells len [of a] by simp
  with pm show ?thesis by blast
qed

lemma sweep_shape: "sweep s X fa ts = Inr pm \<Longrightarrow> n_rows pm = length fa \<and> n_cols pm = length ts"
  using sweep_cells [of s X fa ts] by auto

lemma response_Fin:
  assumes "sv ! k = map (\<lambda>m. Fin (w m)) [0..<dim0 X]"
  shows "response_complex X sv k t
         = Fin (\<Sum>m<dim0 X. elem X m (if dim1 X = 1 then 0 else k) t * w m)"
  unfolding response_complex_def assms by (simp only: matmul_Fin sum_list_upt)

lemma response_norm_Fin:
  assumes "k < length sv" "sv ! k = map (\<lambda>m. Fin (w m)) [0..<dim0 X]" "0 < dim2 X"
  shows "response_norm X sv ! k
         = Fin ((\<Sum>t<dim2 X. cmod (\<Sum>m<dim0 X. elem X m (if dim1 X = 1 then 0 else k) t * w m))
                / real (dim2 X))"
proof -
  have "map (\<lambda>t. map_tval cmod (response_complex X sv k t)) [0..<dim2 X]
      = map Fin (map (\<lambda>t. cmod (\<Sum>m<dim0 X. elem X m (if dim1 X = 1 then 0 else k) t * w m))
                   [0..<dim2 X])"
    by (simp add: response_Fin [OF assms(2)])
  moreover have "response_norm X sv ! k
      = torch_mean (map (\<lambda>t. map_tval cmod (response_complex X sv k t)) [0..<dim2 X])"
    using assms(1) by (simp add: response_norm_def)
  ultimately show ?thesis
    using assms(3) by (simp add: torch_mean_Fin sum_list_upt del: map_map)
qed

lemma sweep_cell_value:
  assumes "c_sound s \<noteq> 0" and "0 < dim2 X" and "sweep s X fa ts = Inr pm"
    and "j < length ts" and "k < length fa"
  shows "cell pm k j =
         Fin (((\<Sum>t<dim2 X. cmod (\<Sum>m<dim0 X. elem X m (if dim1 X = 1 then 0 else k) t
                  * exp (- \<i> * complex_of_real
                      (2 * pi * (ts ! j) * d_inter s * (fa ! k * real m) / c_sound s))))
               / real (dim2 X))\<^sup>2)"
proof -
  let ?sv = "map (\<lambda>f. map (\<lambda>m. steer_entry s (ts ! j) f (real m)) [0..<dim0 X]) fa"
  have cells: "\<forall>f a. a < length ts \<longrightarrow> f < length fa \<longrightarrow>
           cell pm f a = map_tval (\<lambda>r. r ^ 2)
             (response_norm X
                (map (\<lambda>f. map (\<lambda>m. steer_entry s (ts ! a) f (real m)) [0..<dim0 X]) fa) ! f)"
    using sweep_cells [of s X fa ts] assms(3) by auto
  have svk: "?sv ! k = map (\<lambda>m. Fin (exp (- \<i> * complex_of_real
                      (2 * pi * (ts ! j) * d_inter s * (fa ! k * real m) / c_sound s)))) [0..<dim0 X]"
    using assms(1,5) by (simp add: steer_entry_def)
  have "cell pm k j = map_tval (\<lambda>r. r ^ 2) (response_norm X ?sv ! k)"
    using cells assms(4,5) by blast
  also have "\<dots> = Fin (((\<Sum>t<dim2 X. cmod (\<Sum>m<dim0 X. elem X m (if dim1 X = 1 then 0 else k) t
                  * exp (- \<i> * complex_of_real
                      (2 * pi * (ts ! j) * d_inter s * (fa ! k * real m) / c_sound s))))
               / real (dim2 X))\<^sup>2)"
    using assms(2,5) by (simp only: response_norm_Fin [OF _ svk] length_map tval.map)
  finally show ?thesis .
qed

subsection \<open>The mean over frequency and the arg-max\<close>

lemma argmax_scan_Fin:
  "((\<forall>y\<in>set ys. y \<le> b) \<longrightarrow> argmax_scan (map Fin ys) i best (Fin b) = best) \<and>
   ((\<exists>y\<in>set ys. b < y) \<longrightarrow>
      (\<exists>k<length ys. argmax_scan (map Fin ys) i best (Fin b) = i + k \<and> b < ys ! k
          \<and> (\<forall>l<length ys. ys ! l \<le> ys ! k) \<and> (\<forall>l<k. ys ! l < ys ! k)))"
proof (induction ys arbitrary: i best b)
  case Nil
  then show ?case by simp
next
  case (Cons y ys)
  show ?case
  proof (cases "b < y")
    case True
    note IH = Cons.IH [of y "Suc i" i]
    have step: "argmax_scan (map Fin (y # ys)) i best (Fin b) = argmax_scan (map Fin ys) (Suc i) i (Fin y)"
      using True by simp
    show ?thesis
    proof (cases "\<forall>z\<in>set ys. z \<le> y")
      case all: True
      then have "argmax_scan (map Fin (y # ys)) i best (Fin b) = i + 0"
        using IH step by simp
      moreover have "\<forall>l<length (y # ys). (y # ys) ! l \<le> (y # ys) ! 0"
        using all by (auto simp: nth_Cons split: nat.splits)
      ultimately have "\<exists>k<length (y # ys). argmax_scan (map Fin (y # ys)) i best (Fin b) = i + k
          \<and> b < (y # ys) ! k \<and> (\<forall>l<length (y # ys). (y # ys) ! l \<le> (y # ys) ! k)
          \<and> (\<forall>l<k. (y # ys) ! l < (y # ys) ! k)"
        using True by (intro exI [of _ 0]) simp
      then show ?thesis using True by auto
    next
      case False
      then obtain k where k: "k < length ys" "argmax_scan (map Fin ys) (Suc i) i (Fin y) = Suc i + k"
          "y < ys ! k" "\<forall>l<length ys. ys ! l \<le> ys ! k" "\<forall>l<k. ys ! l < ys ! k"
        using IH by (meson not_le)
      have "\<forall>l<length (y # ys). (y # ys) ! l \<le> (y # ys) ! Suc k"
        using k(3,4) by (auto simp: nth_Cons split: nat.splits)
      moreover have "\<forall>l<Suc k. (y # ys) ! l < (y # ys) ! Suc k"
        using k(3,5) by (auto simp: nth_Cons split: nat.splits)
      ultimately have "\<exists>k<length (y # ys). argmax_scan (map Fin (y # ys)) i best (Fin b) = i + k
          \<and> b < (y # ys) ! k \<and> (\<forall>l<length (y # ys). (y # ys) ! l \<le> (y # ys) ! k)
          \<and> (\<forall>l<k. (y # ys) ! l < (y # ys) ! k)"
        using True k(1,2,3) step by (intro exI [of _ "Suc k"]) simp
      then show ?thesis using True by auto
    qed
  next
    case False
    note IH = Cons.IH [of b "Suc i" best]
    have step: "argmax_scan (map Fin (y # ys)) i best (Fin b) = argmax_scan (map Fin ys) (Suc i) best (Fin b)"
      using False by simp
    have a: "(\<forall>z\<in>set (y # ys). z \<le> b) \<longrightarrow> argmax_scan (map Fin (y # ys)) i best (Fin b) = best"
      using IH step by simp
    have b: "\<exists>k<length (y # ys). argmax_scan (map Fin (y # ys)) i best (Fin b) = i + k
          \<and> b < (y # ys) ! k \<and> (\<forall>l<length (y # ys). (y # ys) ! l \<le> (y # ys) ! k)
          \<and> (\<forall>l<k. (y # ys) ! l < (y # ys) ! k)" if "\<exists>z\<in>set (y # ys). b < z"
    proof -
      from that False have "\<exists>z\<in>set ys. b < z" by auto
      then obtain k where k: "k < length ys" "argmax_scan (map Fin ys) (Suc i) best (Fin b) = Suc i + k"
          "b < ys ! k" "\<forall>l<length ys. ys ! l \<le> ys ! k" "\<forall>l<k. ys ! l < ys ! k"
        using IH by blast
      have "\<forall>l<length (y # ys). (y # ys) ! l \<le> (y # ys) ! Suc k"
        using k(3,4) False by (auto simp: nth_Cons split: nat.splits)
      moreover have "\<forall>l<Suc k. (y # ys) ! l < (y # ys) ! Suc k"
        using k(3,5) False by (auto simp: nth_Cons split: nat.splits)
      ultimately show ?thesis
        using k(1,2,3) step by (intro exI [of _ "Suc k"]) simp
    qed
    from a b show ?thesis by blast
  qed
qed

lemma torch_argmax_Fin:
  assumes "ys \<noteq> []"
  shows "\<exists>k<length ys. torch_argmax (map Fin ys) = Inr k
           \<and> (\<forall>l<length ys. ys ! l \<le> ys ! k) \<and> (\<forall>l<k. ys ! l < ys ! k)"
proof -
  obtain y rest where ys: "ys = y # rest" using assms by (cases ys) auto
  have am: "torch_argmax (map Fin ys) = Inr (argmax_scan (map Fin rest) 1 0 (Fin y))"
    by (simp add: ys torch_argmax_def)
  show ?thesis
  proof (cases "\<forall>z\<in>set rest. z \<le> y")
    case True
    then have "argmax_scan (map Fin rest) 1 0 (Fin y) = 0"
      using argmax_scan_Fin [of rest y 1 0] by simp
    moreover have "\<forall>l<length ys. ys ! l \<le> ys ! 0"
      using True by (auto simp: ys nth_Cons split: nat.splits)
    ultimately show ?thesis using am by (intro exI [of _ 0]) (simp add: ys)
  next
    case False
    then obtain k where k: "k < length rest" "argmax_scan (map Fin rest) 1 0 (Fin y) = 1 + k"
        "y < rest ! k" "\<forall>l<length rest. rest ! l \<le> rest ! k" "\<forall>l<k. rest ! l < rest ! k"
      using argmax_scan_Fin [of rest y 1 0] by (meson not_le)
    have "\<forall>l<length ys. ys ! l \<le> ys ! Suc k"
      using k(3,4) by (auto simp: ys nth_Cons split: nat.splits)
    moreover have "\<forall>l<Suc k. ys ! l < ys ! Suc k"
      using k(3,5) by (auto simp: ys nth_Cons split: nat.splits)
    ultimately show ?thesis
      using am k(1,2) by (intro exI [of _ "Suc k"]) (simp add: ys)
  qed
qed

lemma torch_argmax_const: "0 < n \<Longrightarrow> torch_argmax (replicate n (Fin v)) = Inr 0"
proof -
  assume "0 < n"
  then have ne: "replicate n v \<noteq> []" by simp
  obtain k where k: "k < length (replicate n v)" "torch_argmax (map Fin (replicate n v)) = Inr k"
      "\<forall>l<k. replicate n v ! l < replicate n v ! k"
    using torch_argmax_Fin [OF ne] by blast
  have "k = 0"
  proof (rule ccontr)
    assume "k \<noteq> 0"
    then have "replicate n v ! 0 < replicate n v ! k" using k(3) by simp
    then show False using k(1) \<open>0 < n\<close> by simp
  qed
  then show ?thesis using k(2) by simp
qed

lemma argmax_scan_NaN: "argmax_scan (replicate n NaN) i best NaN = best"
  by (induction n arbitrary: i) simp_all

lemma torch_argmax_NaN: "0 < n \<Longrightarrow> torch_argmax (replicate n NaN) = Inr 0"
  by (cases n) (simp_all add: torch_argmax_def argmax_scan_NaN)

lemma mean_dim0_length: "length (mean_dim0 pm) = n_cols pm"
  by (simp add: mean_dim0_def)

lemma mean_dim0_Fin:
  assumes "0 < n_rows pm" and "\<forall>f<n_rows pm. \<forall>a<n_cols pm. cell pm f a = Fin (g f a)"
  shows "mean_dim0 pm = map Fin (map (\<lambda>a. (\<Sum>f<n_rows pm. g f a) / real (n_rows pm)) [0..<n_cols pm])"
proof -
  have "torch_mean (map (\<lambda>f. cell pm f a) [0..<n_rows pm]) = Fin ((\<Sum>f<n_rows pm. g f a) / real (n_rows pm))"
    if "a < n_cols pm" for a
  proof -
    have "map (\<lambda>f. cell pm f a) [0..<n_rows pm] = map Fin (map (\<lambda>f. g f a) [0..<n_rows pm])"
      using assms(2) that by simp
    then show ?thesis
      using assms(1) by (simp add: torch_mean_Fin sum_list_upt del: map_map)
  qed
  then show ?thesis by (simp add: mean_dim0_def)
qed


lemma mean_dim0_empty: "n_rows pm = 0 \<Longrightarrow> mean_dim0 pm = replicate (n_cols pm) NaN"
  by (simp add: mean_dim0_def torch_mean_def map_replicate_const)

lemma aggregate_Inr:
  "aggregate s pm = Inr (doa, curve) \<Longrightarrow> curve = mean_dim0 pm \<and> 0 < n_cols pm"
  by (cases "n_cols pm = 0")
     (auto simp: aggregate_def Let_def ebind_eq_Inr torch_argmax_def mean_dim0_def split: list.splits)

lemma aggregate_returns:
  "0 < n_cols pm \<Longrightarrow> \<exists>doa. aggregate s pm = Inr (doa, mean_dim0 pm)"
proof -
  assume "0 < n_cols pm"
  then have "mean_dim0 pm \<noteq> []"
    using mean_dim0_length [of pm] by auto
  then obtain i where "torch_argmax (mean_dim0 pm) = Inr i"
    by (cases "mean_dim0 pm") (auto simp: torch_argmax_def)
  then show ?thesis by (simp add: aggregate_def)
qed

subsection \<open>The angle grid\<close>

lemma py_int_grid:
  "0 < r \<Longrightarrow> py_int (180 / r + 1) = \<lfloor>180 / r + 1\<rfloor> \<and> 1 \<le> py_int (180 / r + 1)"
  by (simp add: py_int_def)

lemma py_int_grid_neg: "r < 0 \<Longrightarrow> py_int (180 / r + 1) \<le> 0"
proof -
  assume "r < 0"
  define q where "q = 180 / r + 1"
  have "q < 1" using \<open>r < 0\<close> by (simp add: q_def divide_neg_pos)
  then have "\<lfloor>q\<rfloor> \<le> 0" and "q < 0 \<Longrightarrow> \<lceil>q\<rceil> \<le> 0"
    by (simp_all add: floor_le_iff ceiling_le_iff)
  then have "py_int q \<le> 0" by (auto simp: py_int_def)
  then show ?thesis by (simp add: q_def)
qed

lemma srp_ula_Inr:
  assumes "srp_ula s X fa = Inr (doa, curve)"
  shows "0 < resolution s \<and> int (length curve) = \<lfloor>180 / resolution s + 1\<rfloor> \<and> curve \<noteq> []
         \<and> (dim1 X = length fa \<or> dim1 X = 1)"
proof -
  have nz: "resolution s \<noteq> 0"
    using assms by (auto simp: srp_ula_def split: if_splits)
  obtain theta where theta: "torch_linspace (- 90) 90 (py_int (180 / resolution s + 1)) = Inr theta"
    using assms nz by (auto simp: srp_ula_def ebind_eq_Inr)
  have shape: "dim1 X = length fa \<or> dim1 X = 1"
    using assms nz theta by (auto simp: srp_ula_def Let_def split: if_splits)
  then obtain pm where pm: "sweep s X fa (map sin (map deg2rad theta)) = Inr pm"
      "aggregate s pm = Inr (doa, curve)"
    using assms nz theta by (auto simp: srp_ula_def Let_def ebind_eq_Inr split: if_splits)
  have len: "length curve = length theta" "0 < length theta"
    using aggregate_Inr [OF pm(2)] sweep_shape [OF pm(1)] by (simp_all add: mean_dim0_length)
  have n: "int (length theta) = py_int (180 / resolution s + 1)"
    by (rule linspace_length [OF theta])
  have pos: "0 < resolution s"
    using py_int_grid_neg [of "resolution s"] n len(2) nz by (cases "resolution s < 0") auto
  show ?thesis
    using pos len n shape py_int_grid [OF pos] by auto
qed


lemma srp_ula_eq_aggregate:
  assumes "0 < resolution s" and "dim1 X = length fa"
  shows "\<exists>theta pm. torch_linspace (- 90) 90 \<lfloor>180 / resolution s + 1\<rfloor> = Inr theta
           \<and> length theta = nat \<lfloor>180 / resolution s + 1\<rfloor> \<and> 0 < length theta
           \<and> sweep s X fa (map sin (map deg2rad theta)) = Inr pm
           \<and> n_rows pm = length fa \<and> n_cols pm = length theta
           \<and> srp_ula s X fa = aggregate s pm"
proof -
  let ?n = "\<lfloor>180 / resolution s + 1\<rfloor>"
  have n: "py_int (180 / resolution s + 1) = ?n" "1 \<le> ?n"
    using py_int_grid [OF assms(1)] by auto
  then obtain theta where theta: "torch_linspace (- 90) 90 ?n = Inr theta"
    using linspace_nonneg [of ?n "- 90" 90] by auto
  have len: "length theta = nat ?n" "0 < length theta"
    using linspace_length [OF theta] n(2) by linarith+
  obtain pm where pm: "sweep s X fa (map sin (map deg2rad theta)) = Inr pm"
      "n_rows pm = length fa" "n_cols pm = length theta"
    using sweep_cells [of s X fa "map sin (map deg2rad theta)"] by auto
  have "srp_ula s X fa = aggregate s pm"
    using assms theta pm(1) n(1) by (simp add: srp_ula_def)
  with theta len pm show ?thesis by blast
qed

lemma srp_ula_empty_band:
  assumes "0 < resolution s" and "dim1 X = 0"
  shows "srp_ula s X [] = Inr (- 90, replicate (nat \<lfloor>180 / resolution s + 1\<rfloor>) NaN)"
proof -
  let ?n = "\<lfloor>180 / resolution s + 1\<rfloor>"
  have n: "py_int (180 / resolution s + 1) = ?n" "1 \<le> ?n"
    using py_int_grid [OF assms(1)] by auto
  then obtain theta where theta: "torch_linspace (- 90) 90 ?n = Inr theta"
    using linspace_nonneg [of ?n "- 90" 90] by auto
  have len: "length theta = nat ?n"
    using linspace_length [OF theta] by linarith
  obtain pm where pm: "sweep s X [] (map sin (map deg2rad theta)) = Inr pm"
      "n_rows pm = 0" "n_cols pm = length theta"
    using sweep_cells [of s X "[]" "map sin (map deg2rad theta)"] by auto
  have "aggregate s pm = Inr (- 90, replicate (nat ?n) NaN)"
    using n(2) by (simp add: aggregate_def mean_dim0_empty pm(2,3) len torch_argmax_NaN)
  then show ?thesis
    using assms theta pm(1) n(1) by (simp add: srp_ula_def)
qed

subsection \<open>Boolean-mask indexing and the transform stage\<close>

lemma bool_index_map: "bool_index xs (map P xs) = filter P xs"
  by (induction xs) (simp_all add: bool_index_def)

lemma bool_index_upt:
  "bool_index [0..<length xs] (map P xs) = filter (\<lambda>k. P (xs ! k)) [0..<length xs]"
proof -
  have "map P xs = map P (map (\<lambda>k. xs ! k) [0..<length xs])"
    by (simp only: map_nth)
  then have "map P xs = map (\<lambda>k. P (xs ! k)) [0..<length xs]"
    by (simp only: map_map comp_def)
  then show ?thesis
    using bool_index_map [of "[0..<length xs]" "\<lambda>k. P (xs ! k)"] by simp
qed

lemma filter_by_index:
  "filter P xs = map (\<lambda>k. xs ! k) (filter (\<lambda>k. P (xs ! k)) [0..<length xs])"
proof -
  have "filter P (map (\<lambda>k. xs ! k) [0..<length xs])
        = map (\<lambda>k. xs ! k) (filter (\<lambda>k. P (xs ! k)) [0..<length xs])"
    by (simp add: filter_map comp_def)
  then show ?thesis by (simp add: map_nth)
qed

lemma filter_index_empty:
  assumes "\<forall>f\<in>set raw. \<not> P f"
  shows "filter (\<lambda>k. P (raw ! k)) [0..<length raw] = []"
  using assms by (auto simp: filter_empty_conv)

lemma multi_channel_stft_eq:
  assumes "stft (n_fft s) (hop_length s) (window s) x = Some X"
    and "torch_linspace 0 (fs s / 2) (n_fft s div 2 + 1) = Inr raw"
    and "length raw = dim1 X"
  shows "multi_channel_stft stft s x =
     Inr (\<lparr>dim0 = dim0 X,
           dim1 = length (filter (\<lambda>k. f_low s \<le> raw ! k \<and> raw ! k < f_high s) [0..<length raw]),
           dim2 = dim2 X,
           elem = (\<lambda>ch k t. elem X ch
                     (filter (\<lambda>k. f_low s \<le> raw ! k \<and> raw ! k < f_high s) [0..<length raw] ! k) t)\<rparr>,
          filter (\<lambda>f. f_low s \<le> f \<and> f < f_high s) raw)"
  using assms bool_index_upt [of raw "\<lambda>f. f_low s \<le> f \<and> f < f_high s"]
  by (simp add: multi_channel_stft_def index_dim1_def bool_index_map Let_def)

lemma multi_channel_stft_Inr:
  assumes "multi_channel_stft stft s x = Inr (Y, f_analog)"
  shows "\<exists>X raw. stft (n_fft s) (hop_length s) (window s) x = Some X
         \<and> torch_linspace 0 (fs s / 2) (n_fft s div 2 + 1) = Inr raw
         \<and> length raw = dim1 X
         \<and> dim0 Y = dim0 X \<and> dim2 Y = dim2 X
         \<and> dim1 Y = length (filter (\<lambda>k. f_low s \<le> raw ! k \<and> raw ! k < f_high s) [0..<length raw])
         \<and> elem Y = (\<lambda>ch k t. elem X ch
               (filter (\<lambda>k. f_low s \<le> raw ! k \<and> raw ! k < f_high s) [0..<length raw] ! k) t)
         \<and> f_analog = filter (\<lambda>f. f_low s \<le> f \<and> f < f_high s) raw"
proof -
  obtain X where X: "stft (n_fft s) (hop_length s) (window s) x = Some X"
    using assms by (auto simp: multi_channel_stft_def split: option.splits)
  obtain raw where raw: "torch_linspace 0 (fs s / 2) (n_fft s div 2 + 1) = Inr raw"
    using assms X by (auto simp: multi_channel_stft_def ebind_eq_Inr)
  have len: "length raw = dim1 X"
    using assms X raw
    by (auto simp: multi_channel_stft_def index_dim1_def Let_def ebind_eq_Inr split: if_splits)
  show ?thesis
    using assms multi_channel_stft_eq [of stft s x X raw] X raw len by auto
qed

lemma multi_channel_stft_shape:
  assumes "multi_channel_stft stft s x = Inr (Y, f_analog)"
  shows "dim1 Y = length f_analog"
proof -
  obtain X raw where
    Y: "dim1 Y = length (filter (\<lambda>k. f_low s \<le> raw ! k \<and> raw ! k < f_high s) [0..<length raw])"
    and fa: "f_analog = filter (\<lambda>f. f_low s \<le> f \<and> f < f_high s) raw"
    using multi_channel_stft_Inr [OF assms] by blast
  have "length f_analog
      = length (filter (\<lambda>k. f_low s \<le> raw ! k \<and> raw ! k < f_high s) [0..<length raw])"
    unfolding fa by (subst filter_by_index) simp
  then show ?thesis by (simp add: Y)
qed

lemma multi_channel_stft_returns:
  assumes "stft (n_fft s) (hop_length s) (window s) x = Some X"
    and "int (dim1 X) = n_fft s div 2 + 1"
  shows "\<exists>Y fa. multi_channel_stft stft s x = Inr (Y, fa) \<and> dim1 Y = length fa
           \<and> dim0 Y = dim0 X \<and> dim2 Y = dim2 X"
proof -
  have "0 \<le> n_fft s div 2 + 1" using assms(2) by linarith
  then obtain raw where raw: "torch_linspace 0 (fs s / 2) (n_fft s div 2 + 1) = Inr raw"
    using linspace_nonneg [of "n_fft s div 2 + 1" 0 "fs s / 2"] by auto
  have len: "length raw = dim1 X"
    using linspace_length [OF raw] assms(2) by linarith
  obtain Y fa where Y: "multi_channel_stft stft s x = Inr (Y, fa)"
     "dim0 Y = dim0 X" "dim2 Y = dim2 X"
    using multi_channel_stft_eq [of stft s x X raw] assms(1) raw len by simp
  then show ?thesis using multi_channel_stft_shape [OF Y(1)] by blast
qed

subsection \<open>Whole runs\<close>

lemma forward_returns:
  assumes "spatial_nyquist_check s = Inr ()"
    and "stft (n_fft s) (hop_length s) (window s) x = Some X"
    and "int (dim1 X) = n_fft s div 2 + 1"
    and "0 < resolution s"
  shows "\<exists>doa curve. forward stft s x = Inr (doa, curve)
           \<and> length curve = nat \<lfloor>180 / resolution s + 1\<rfloor>"
proof -
  obtain Y fa where Y: "multi_channel_stft stft s x = Inr (Y, fa)" "dim1 Y = length fa"
    using multi_channel_stft_returns [of stft s x X] assms(2,3) by blast
  obtain theta pm where pm: "length theta = nat \<lfloor>180 / resolution s + 1\<rfloor>" "0 < length theta"
      "sweep s Y fa (map sin (map deg2rad theta)) = Inr pm"
      "n_rows pm = length fa" "n_cols pm = length theta" "srp_ula s Y fa = aggregate s pm"
    using srp_ula_eq_aggregate [OF assms(4) Y(2)] by blast
  obtain doa where "aggregate s pm = Inr (doa, mean_dim0 pm)"
    using aggregate_returns [of pm s] pm(2,5) by auto
  then have "forward stft s x = Inr (doa, mean_dim0 pm)"
    using assms(1) Y(1) pm(6) by (simp add: forward_def)
  then show ?thesis using pm(1,5) by (simp add: mean_dim0_length)
qed

lemma forward_empty_band:
  assumes "spatial_nyquist_check s = Inr ()"
    and "stft (n_fft s) (hop_length s) (window s) x = Some X"
    and "int (dim1 X) = n_fft s div 2 + 1"
    and "torch_linspace 0 (fs s / 2) (n_fft s div 2 + 1) = Inr raw"
    and "\<forall>f\<in>set raw. \<not> (f_low s \<le> f \<and> f < f_high s)"
    and "0 < resolution s"
  shows "forward stft s x = Inr (- 90, replicate (nat \<lfloor>180 / resolution s + 1\<rfloor>) NaN)"
proof -
  have len: "length raw = dim1 X"
    using linspace_length [OF assms(4)] assms(3) by linarith
  have none: "filter (\<lambda>f. f_low s \<le> f \<and> f < f_high s) raw = []"
    using assms(5) by (auto simp: filter_empty_conv)
  have none_idx: "filter (\<lambda>k. f_low s \<le> raw ! k \<and> raw ! k < f_high s) [0..<length raw] = []"
    using filter_index_empty [of raw "\<lambda>f. f_low s \<le> f \<and> f < f_high s"] assms(5) by simp
  obtain Y where Y: "multi_channel_stft stft s x = Inr (Y, [])" "dim1 Y = 0"
    using multi_channel_stft_eq [of stft s x X raw] assms(2,4) len none none_idx by simp
  show ?thesis
    using assms(1) Y srp_ula_empty_band [OF assms(6) Y(2)] by (simp add: forward_def)
qed

lemma forward_silent:
  assumes "spatial_nyquist_check s = Inr ()"
    and "stft (n_fft s) (hop_length s) (window s) x = Some X"
    and "int (dim1 X) = n_fft s div 2 + 1"
    and "0 < resolution s"
    and "c_sound s \<noteq> 0" and "0 < dim2 X" and "elem X = (\<lambda>ch f t. 0)"
    and "torch_linspace 0 (fs s / 2) (n_fft s div 2 + 1) = Inr raw"
    and "\<exists>f\<in>set raw. f_low s \<le> f \<and> f < f_high s"
  shows "forward stft s x = Inr (- 90, replicate (nat \<lfloor>180 / resolution s + 1\<rfloor>) (Fin 0))"
proof -
  obtain Y fa where Y: "multi_channel_stft stft s x = Inr (Y, fa)" "dim1 Y = length fa"
    using multi_channel_stft_returns [of stft s x X] assms(2,3) by blast
  obtain X' raw' where X': "stft (n_fft s) (hop_length s) (window s) x = Some X'"
     "torch_linspace 0 (fs s / 2) (n_fft s div 2 + 1) = Inr raw'"
     "dim2 Y = dim2 X'"
     "elem Y = (\<lambda>ch k t. elem X' ch
               (filter (\<lambda>k. f_low s \<le> raw' ! k \<and> raw' ! k < f_high s) [0..<length raw'] ! k) t)"
     "fa = filter (\<lambda>f. f_low s \<le> f \<and> f < f_high s) raw'"
    using multi_channel_stft_Inr [OF Y(1)] by blast
  have same: "X' = X" "raw' = raw" using X'(1,2) assms(2,8) by simp_all
  have T: "0 < dim2 Y" using assms(6) same by (simp add: X'(3))
  have F: "0 < length fa" using assms(9) same by (auto simp: X'(5) filter_empty_conv)
  have zero: "elem Y ch k t = 0" for ch k t
    using assms(7) same by (simp add: X'(4))
  obtain theta pm where pm: "length theta = nat \<lfloor>180 / resolution s + 1\<rfloor>" "0 < length theta"
      "sweep s Y fa (map sin (map deg2rad theta)) = Inr pm"
      "n_rows pm = length fa" "n_cols pm = length theta" "srp_ula s Y fa = aggregate s pm"
    using srp_ula_eq_aggregate [OF assms(4) Y(2)] by blast
  have cells: "\<forall>f<n_rows pm. \<forall>a<n_cols pm. cell pm f a = Fin ((\<lambda>f a. 0) f a)"
    using sweep_cell_value [OF assms(5) T pm(3)] pm(4,5) T by (simp add: zero)
  have "mean_dim0 pm = replicate (n_cols pm) (Fin 0)"
    using mean_dim0_Fin [of pm "\<lambda>f a. 0"] cells F pm(4) by (simp add: map_replicate_const)
  then have "aggregate s pm = Inr (- 90, replicate (n_cols pm) (Fin 0))"
    using pm(2,5) by (simp add: aggregate_def torch_argmax_const)
  then show ?thesis
    using assms(1) Y(1) pm(1,5,6) by (simp add: forward_def)
qed

subsection \<open>The example configuration\<close>

lemma demo_linspace: "torch_linspace 0 (8 / 2) (4 div 2 + 1) = Inr [0, 2, 4]"
  by (simp add: torch_linspace_def upt_conv_Cons)

lemma upt3: "[0..<3] = [0, 1, 2]"
  by (simp add: upt_conv_Cons)

lemma demo_init: "SRP_init d 343 4 2 4 8 flo fhi res = Inr (demo_srp d flo fhi res)"
proof -
  have "[0..<nat 4] = [0, 1, 2, 3]" by (simp add: upt_conv_Cons)
  moreover have "pi * 3 / 2 = 3 / 2 * pi" by simp
  then have "cos (pi * 3 / 2) = 0" by (simp only: cos_3over2_pi)
  ultimately show ?thesis
    by (simp add: SRP_init_def hann_window_def demo_srp_def)
qed

section \<open>The steering-response sweep\<close>

text \<open>
  Claim C1. For every angle index \<open>j\<close>, every frequency bin \<open>k\<close> and every non-empty set of
  time frames, the sweep stores at grid position \<open>(k, j)\<close> the square of the unweighted mean
  over the time frames of the magnitude of the beamformed response: magnitude first, then
  the mean over \<open>t\<close>, then the square. The propagation speed is not zero and the spectrum
  has one frequency bin per entry of \<open>f_analog\<close>, as \<open>forward\<close> provides it.
\<close>

theorem power_is_squared_mean_magnitude:
  assumes "c_sound s \<noteq> 0" and "0 < dim2 X" and "dim1 X = length fa"
    and "j < length ts" and "k < length fa"
  shows "\<exists>pm. sweep s X fa ts = Inr pm \<and> n_rows pm = length fa \<and> n_cols pm = length ts
     \<and> cell pm k j =
         Fin (((\<Sum>t<dim2 X. cmod (\<Sum>m<dim0 X. elem X m k t
                  * exp (- \<i> * complex_of_real
                      (2 * pi * (ts ! j) * d_inter s * (fa ! k * real m) / c_sound s))))
               / real (dim2 X))\<^sup>2)"
proof -
  obtain pm where pm: "sweep s X fa ts = Inr pm" "n_rows pm = length fa" "n_cols pm = length ts"
    using sweep_cells [of s X fa ts] by blast
  have bin: "(if dim1 X = 1 then 0 else k) = k"
    using assms(3,5) by auto
  have "cell pm k j =
         Fin (((\<Sum>t<dim2 X. cmod (\<Sum>m<dim0 X. elem X m k t
                  * exp (- \<i> * complex_of_real
                      (2 * pi * (ts ! j) * d_inter s * (fa ! k * real m) / c_sound s))))
               / real (dim2 X))\<^sup>2)"
    using sweep_cell_value [OF assms(1,2) pm(1) assms(4,5)] by (simp only: bin)
  with pm show ?thesis by blast
qed

text \<open>
  One channel, one bin, two frames of magnitudes 1 and 3: the stored power is
  \<open>((1 + 3) / 2)\<^sup>2 = 4\<close>, and not the mean \<open>5\<close> of the squared magnitudes.
\<close>

theorem power_is_squared_mean_magnitude_witness:
  "\<exists>pm. sweep (demo_srp (1 / 50) 1 3 90)
            (spectrum 1 1 2 (\<lambda>ch f t. if t = 0 then 1 else 3)) [2] [0, 1] = Inr pm
     \<and> cell pm 0 1 = Fin 4
     \<and> Fin (4 :: real) \<noteq> Fin (((cmod 1)\<^sup>2 + (cmod 3)\<^sup>2) / 2)"
  using power_is_squared_mean_magnitude
    [of "demo_srp (1 / 50) 1 3 90" "spectrum 1 1 2 (\<lambda>ch f t. if t = 0 then 1 else 3)" "[2]" 1 "[0, 1]" 0]
  by (auto simp: demo_srp_def spectrum_def numeral_2_eq_2)

section \<open>The steering vector\<close>

text \<open>
  Claim C2. In a run of \<open>srp_ula\<close> with a positive resolution and a propagation speed
  that is not zero, let \<open>theta\<close> be the grid of candidate angles in degrees. The sweep is
  run on a list \<open>ts\<close> with one entry per angle and \<open>srp_ula\<close> aggregates the grid \<open>pm\<close> it
  returns. For every angle index \<open>j\<close> the steering vector \<open>sv\<close> built from \<open>ts ! j\<close> has one
  row per retained frequency and one entry per channel, its entry for the frequency
  \<open>f_analog ! k\<close> and the channel index \<open>m\<close> is
  \<open>exp (- \<i> * 2 * pi * sin (theta ! j * pi / 180) * d_inter * f * m / c)\<close>, the sine being
  taken of the angle converted to radians, and column \<open>j\<close> of the grid is the square of
  the response norm computed with that steering vector.
\<close>

theorem steering_entry_formula:
  assumes "c_sound s \<noteq> 0" and "0 < resolution s" and "dim1 X = length f_analog"
  shows "\<exists>theta ts pm.
           torch_linspace (- 90) 90 (py_int (180 / resolution s + 1)) = Inr theta
         \<and> length ts = length theta
         \<and> sweep s X f_analog ts = Inr pm
         \<and> srp_ula s X f_analog = aggregate s pm
         \<and> (\<forall>j<length theta. \<exists>sv.
                steer_vec s (ts ! j) f_analog (dim0 X) = Inr sv
              \<and> length sv = length f_analog
              \<and> (\<forall>k<length f_analog.
                     length (sv ! k) = dim0 X
                   \<and> (\<forall>m<dim0 X. sv ! k ! m = Fin (exp (- (\<i> * complex_of_real
                          (2 * pi * sin (theta ! j * pi / 180) * d_inter s * (f_analog ! k)
                             * real m / c_sound s)))))
                   \<and> cell pm k j = map_tval (\<lambda>r. r\<^sup>2) (response_norm X sv ! k)))"
proof -
  obtain theta pm where run:
      "torch_linspace (- 90) 90 \<lfloor>180 / resolution s + 1\<rfloor> = Inr theta"
      "sweep s X f_analog (map sin (map deg2rad theta)) = Inr pm"
      "srp_ula s X f_analog = aggregate s pm"
    using srp_ula_eq_aggregate [OF assms(2,3)] by blast
  let ?ts = "map sin (map deg2rad theta)"
  let ?sv = "\<lambda>j. map (\<lambda>f. map (\<lambda>m. steer_entry s (?ts ! j) f (real m)) [0..<dim0 X]) f_analog"
  have grid: "torch_linspace (- 90) 90 (py_int (180 / resolution s + 1)) = Inr theta"
    using run(1) py_int_grid [OF assms(2)] by simp
  have cells: "\<forall>f a. a < length ?ts \<longrightarrow> f < length f_analog \<longrightarrow>
           cell pm f a = map_tval (\<lambda>r. r ^ 2) (response_norm X (?sv a) ! f)"
    using sweep_cells [of s X f_analog ?ts] run(2) by auto
  have col: "\<exists>sv. steer_vec s (?ts ! j) f_analog (dim0 X) = Inr sv
              \<and> length sv = length f_analog
              \<and> (\<forall>k<length f_analog.
                     length (sv ! k) = dim0 X
                   \<and> (\<forall>m<dim0 X. sv ! k ! m = Fin (exp (- (\<i> * complex_of_real
                          (2 * pi * sin (theta ! j * pi / 180) * d_inter s * (f_analog ! k)
                             * real m / c_sound s)))))
                   \<and> cell pm k j = map_tval (\<lambda>r. r\<^sup>2) (response_norm X sv ! k))"
    if j: "j < length theta" for j
  proof -
    have a: "steer_vec s (?ts ! j) f_analog (dim0 X) = Inr (?sv j)"
      by (rule steer_vec_eq)
    have b: "length (?sv j) = length f_analog" by simp
    have c: "length (?sv j ! k) = dim0 X
           \<and> (\<forall>m<dim0 X. ?sv j ! k ! m = Fin (exp (- (\<i> * complex_of_real
                          (2 * pi * sin (theta ! j * pi / 180) * d_inter s * (f_analog ! k)
                             * real m / c_sound s)))))
           \<and> cell pm k j = map_tval (\<lambda>r. r\<^sup>2) (response_norm X (?sv j) ! k)"
      if k: "k < length f_analog" for k
    proof -
      have "cell pm k j = map_tval (\<lambda>r. r\<^sup>2) (response_norm X (?sv j) ! k)"
        using cells j k by simp
      moreover have "\<forall>m<dim0 X. ?sv j ! k ! m = Fin (exp (- (\<i> * complex_of_real
                          (2 * pi * sin (theta ! j * pi / 180) * d_inter s * (f_analog ! k)
                             * real m / c_sound s))))"
        using assms(1) j k by (simp add: steer_entry_def deg2rad_def mult.assoc)
      moreover have "length (?sv j ! k) = dim0 X" using k by simp
      ultimately show ?thesis by blast
    qed
    from a b c show ?thesis by blast
  qed
  have "length ?ts = length theta" by simp
  with grid run(2,3) col show ?thesis by blast
qed

text \<open>
  Two channels, one bin at 2 Hz and a resolution of 90 degrees: the grid of angles is
  \<open>[- 90, 0, 90]\<close>, and for the last angle the entry of channel 1 has the sine of
  \<open>90 * pi / 180\<close> in its phase.
\<close>

theorem steering_entry_formula_witness:
  "\<exists>ts pm sv.
       torch_linspace (- 90) 90 (py_int (180 / resolution (demo_srp (1 / 50) 1 3 90) + 1))
         = Inr [- 90, 0, 90]
     \<and> sweep (demo_srp (1 / 50) 1 3 90) (spectrum 2 1 1 (\<lambda>ch f t. of_nat (ch + 1))) [2] ts = Inr pm
     \<and> srp_ula (demo_srp (1 / 50) 1 3 90) (spectrum 2 1 1 (\<lambda>ch f t. of_nat (ch + 1))) [2]
         = aggregate (demo_srp (1 / 50) 1 3 90) pm
     \<and> steer_vec (demo_srp (1 / 50) 1 3 90) (ts ! 2) [2] 2 = Inr sv
     \<and> sv ! 0 ! 1 = Fin (exp (- (\<i> * complex_of_real
                          (2 * pi * sin (90 * pi / 180) * (1 / 50) * 2 * 1 / 343))))
     \<and> cell pm 0 2
         = map_tval (\<lambda>r. r\<^sup>2)
             (response_norm (spectrum 2 1 1 (\<lambda>ch f t. of_nat (ch + 1))) sv ! 0)"
proof -
  let ?s = "demo_srp (1 / 50) 1 3 90"
  let ?X = "spectrum 2 1 1 (\<lambda>ch f t. of_nat (ch + 1))"
  have hyps: "c_sound ?s \<noteq> 0" "0 < resolution ?s" "dim1 ?X = length [2 :: real]"
    by (simp_all add: demo_srp_def spectrum_def)
  have grid: "torch_linspace (- 90) 90 (py_int (180 / resolution ?s + 1)) = Inr [- 90, 0, 90]"
    by (simp add: demo_srp_def py_int_def torch_linspace_def upt3)
  obtain theta ts pm where a:
      "torch_linspace (- 90) 90 (py_int (180 / resolution ?s + 1)) = Inr theta"
      "sweep ?s ?X [2] ts = Inr pm"
      "srp_ula ?s ?X [2] = aggregate ?s pm"
      and cols: "\<forall>j<length theta. \<exists>sv.
                steer_vec ?s (ts ! j) [2] (dim0 ?X) = Inr sv
              \<and> length sv = length [2 :: real]
              \<and> (\<forall>k<length [2 :: real].
                     length (sv ! k) = dim0 ?X
                   \<and> (\<forall>m<dim0 ?X. sv ! k ! m = Fin (exp (- (\<i> * complex_of_real
                          (2 * pi * sin (theta ! j * pi / 180) * d_inter ?s * ([2] ! k)
                             * real m / c_sound ?s)))))
                   \<and> cell pm k j = map_tval (\<lambda>r. r\<^sup>2) (response_norm ?X sv ! k))"
    using steering_entry_formula [OF hyps] by blast
  have theta: "theta = [- 90, 0, 90]" using a(1) grid by simp
  obtain sv where sv: "steer_vec ?s (ts ! 2) [2] (dim0 ?X) = Inr sv"
      "\<forall>k<length [2 :: real].
                     length (sv ! k) = dim0 ?X
                   \<and> (\<forall>m<dim0 ?X. sv ! k ! m = Fin (exp (- (\<i> * complex_of_real
                          (2 * pi * sin (theta ! 2 * pi / 180) * d_inter ?s * ([2] ! k)
                             * real m / c_sound ?s)))))
                   \<and> cell pm k 2 = map_tval (\<lambda>r. r\<^sup>2) (response_norm ?X sv ! k)"
    using cols [rule_format, of 2] theta by auto
  have e: "sv ! 0 ! 1 = Fin (exp (- (\<i> * complex_of_real
                          (2 * pi * sin (90 * pi / 180) * (1 / 50) * 2 * 1 / 343))))"
    using sv(2) [rule_format, of 0] by (simp add: theta demo_srp_def spectrum_def)
  have c: "cell pm 0 2 = map_tval (\<lambda>r. r\<^sup>2) (response_norm ?X sv ! 0)"
    using sv(2) [rule_format, of 0] by simp
  have d: "steer_vec ?s (ts ! 2) [2] 2 = Inr sv"
    using sv(1) by (simp add: spectrum_def)
  from grid a(2,3) d e c show ?thesis by blast
qed

section \<open>Aggregation and decision\<close>

text \<open>
  Claim C3. For every power grid with at least one frequency row and one angle column,
  all entries finite, the aggregation returns as \<open>power_curve\<close> the unweighted mean of the
  grid over the frequency axis, one entry per angle, and the angle
  \<open>i * resolution - 90\<close>, where \<open>i\<close> is the first index at which the curve is maximal.
\<close>

theorem aggregate_mean_argmax:
  assumes "0 < n_rows pm" and "0 < n_cols pm"
    and "\<forall>f<n_rows pm. \<forall>a<n_cols pm. cell pm f a = Fin (g f a)"
  shows "\<exists>i<n_cols pm.
           aggregate s pm = Inr (real i * resolution s - 90,
              map (\<lambda>a. Fin ((\<Sum>f<n_rows pm. g f a) / real (n_rows pm))) [0..<n_cols pm])
         \<and> (\<forall>a<n_cols pm. (\<Sum>f<n_rows pm. g f a) / real (n_rows pm)
                           \<le> (\<Sum>f<n_rows pm. g f i) / real (n_rows pm))
         \<and> (\<forall>a<i. (\<Sum>f<n_rows pm. g f a) / real (n_rows pm)
                    < (\<Sum>f<n_rows pm. g f i) / real (n_rows pm))"
proof -
  let ?mu = "\<lambda>a. (\<Sum>f<n_rows pm. g f a) / real (n_rows pm)"
  let ?ys = "map ?mu [0..<n_cols pm]"
  have mean: "mean_dim0 pm = map Fin ?ys"
    by (rule mean_dim0_Fin [OF assms(1,3)])
  have "?ys \<noteq> []" using assms(2) by simp
  then obtain i where i: "i < length ?ys" "torch_argmax (map Fin ?ys) = Inr i"
      "\<forall>l<length ?ys. ?ys ! l \<le> ?ys ! i" "\<forall>l<i. ?ys ! l < ?ys ! i"
    using torch_argmax_Fin [of ?ys] by blast
  have i_lt: "i < n_cols pm" using i(1) by simp
  have "aggregate s pm = Inr (real i * resolution s - 90, map (\<lambda>a. Fin (?mu a)) [0..<n_cols pm])"
    using i(2) by (simp add: aggregate_def mean comp_def)
  moreover have "\<forall>a<n_cols pm. ?mu a \<le> ?mu i"
    using i(3) i_lt by simp
  moreover have "\<forall>a<i. ?mu a < ?mu i"
    using i(4) i_lt by simp
  ultimately show ?thesis using i_lt by blast
qed

text \<open>
  Two rows \<open>[1, 5, 5]\<close> and \<open>[3, 7, 7]\<close>: the curve is \<open>[2, 6, 6]\<close>, the first maximum is at
  index 1, and with a resolution of 90 degrees the angle is 0.
\<close>

theorem aggregate_mean_argmax_witness:
  "aggregate (demo_srp (1 / 50) 1 3 90)
     \<lparr>n_rows = 2, n_cols = 3, cell = (\<lambda>f a. Fin ((if a = 0 then 1 else 5) + 2 * real f))\<rparr>
   = Inr (0, [Fin 2, Fin 6, Fin 6])"
proof -
  let ?s = "demo_srp (1 / 50) 1 3 90"
  let ?g = "\<lambda>(f :: nat) (a :: nat). (if a = 0 then 1 else 5) + 2 * real f :: real"
  let ?pm = "\<lparr>n_rows = 2, n_cols = 3, cell = (\<lambda>f a. Fin (?g f a))\<rparr>"
  define mu :: "nat \<Rightarrow> real" where "mu = (\<lambda>a. (\<Sum>f<n_rows ?pm. ?g f a) / real (n_rows ?pm))"
  have mu: "mu a = (if a = 0 then 2 else 6)" for a
    unfolding mu_def by (simp add: numeral_2_eq_2)
  have "\<exists>i<n_cols ?pm.
           aggregate ?s ?pm = Inr (real i * resolution ?s - 90, map (\<lambda>a. Fin (mu a)) [0..<n_cols ?pm])
         \<and> (\<forall>a<n_cols ?pm. mu a \<le> mu i) \<and> (\<forall>a<i. mu a < mu i)"
    unfolding mu_def by (rule aggregate_mean_argmax) simp_all
  then obtain i where i: "i < n_cols ?pm"
      "aggregate ?s ?pm = Inr (real i * resolution ?s - 90, map (\<lambda>a. Fin (mu a)) [0..<n_cols ?pm])"
      "\<forall>a<n_cols ?pm. mu a \<le> mu i" "\<forall>a<i. mu a < mu i"
    by blast
  have "mu 1 \<le> mu i" using i(3) by simp
  then have "i \<noteq> 0" by (cases "i = 0") (simp_all add: mu)
  moreover have "i \<noteq> 2"
  proof
    assume "i = 2"
    then have "mu 1 < mu 2" using i(4) by simp
    then show False by (simp add: mu)
  qed
  ultimately have "i = 1" using i(1) by simp
  then show ?thesis using i(2) by (simp add: mu upt3 demo_srp_def)
qed

section \<open>The spatial Nyquist gate\<close>

text \<open>
  Claim C4. With \<open>f_high \<noteq> 0\<close> (so that the bound \<open>c / (2 * f_high)\<close> is defined), a run
  of \<open>forward\<close> raises the \<open>ValueError\<close> of the spatial Nyquist check if and only if
  \<open>d_inter > c / (2 * f_high)\<close>. When it does, the outcome is the same whatever the
  transform would do and whatever the waveform is: the check comes before any transform
  or sweep work. A spacing of \<open>c / (2 * f_high) + eps\<close> fails and a spacing of
  \<open>c / (2 * f_high) - eps\<close> passes the check, for every \<open>eps > 0\<close>.
\<close>

theorem nyquist_gate:
  assumes "f_high s \<noteq> 0"
  shows "((\<exists>m. forward stft s x = Inl (ValueError m)) \<longleftrightarrow> c_sound s / (2 * f_high s) < d_inter s)
       \<and> (c_sound s / (2 * f_high s) < d_inter s \<longrightarrow>
            (\<forall>stft' x'. forward stft' s x' = Inl (ValueError nyquist_msg)))
       \<and> (0 < eps \<longrightarrow>
            forward stft (s\<lparr>d_inter := c_sound s / (2 * f_high s) + eps\<rparr>) x = Inl (ValueError nyquist_msg)
          \<and> spatial_nyquist_check (s\<lparr>d_inter := c_sound s / (2 * f_high s) - eps\<rparr>) = Inr ())"
proof -
  have chk: "spatial_nyquist_check s' =
      (if c_sound s' / (2 * f_high s') < d_inter s' then Inl (ValueError nyquist_msg) else Inr ())"
    if "f_high s' = f_high s" for s'
    using assms that by (simp add: spatial_nyquist_check_def)
  have a: "(\<exists>m. forward stft s x = Inl (ValueError m)) \<longleftrightarrow> c_sound s / (2 * f_high s) < d_inter s"
  proof
    assume "\<exists>m. forward stft s x = Inl (ValueError m)"
    then obtain m where "spatial_nyquist_check s = Inl (ValueError m)"
      using forward_ValueError by blast
    then show "c_sound s / (2 * f_high s) < d_inter s"
      using chk [of s] by (simp split: if_splits)
  next
    assume "c_sound s / (2 * f_high s) < d_inter s"
    then have "spatial_nyquist_check s = Inl (ValueError nyquist_msg)"
      using chk [of s] by simp
    then show "\<exists>m. forward stft s x = Inl (ValueError m)"
      using forward_check_fails by blast
  qed
  have b: "c_sound s / (2 * f_high s) < d_inter s \<longrightarrow>
            (\<forall>stft' x'. forward stft' s x' = Inl (ValueError nyquist_msg))"
    using chk [of s] forward_check_fails by auto
  have c: "0 < eps \<longrightarrow>
            forward stft (s\<lparr>d_inter := c_sound s / (2 * f_high s) + eps\<rparr>) x = Inl (ValueError nyquist_msg)
          \<and> spatial_nyquist_check (s\<lparr>d_inter := c_sound s / (2 * f_high s) - eps\<rparr>) = Inr ()"
    using chk [of "s\<lparr>d_inter := c_sound s / (2 * f_high s) + eps\<rparr>"]
          chk [of "s\<lparr>d_inter := c_sound s / (2 * f_high s) - eps\<rparr>"]
    by (auto intro: forward_check_fails)
  from a b c show ?thesis by blast
qed

theorem nyquist_gate_witness:
  "f_high (demo_srp 100 1 3 90) \<noteq> 0
   \<and> c_sound (demo_srp 100 1 3 90) / (2 * f_high (demo_srp 100 1 3 90)) < d_inter (demo_srp 100 1 3 90)
   \<and> forward (returning (silent_spectrum 2 3 3)) (demo_srp 100 1 3 90) (silence 4 2)
       = Inl (ValueError nyquist_msg)
   \<and> forward (returning (silent_spectrum 2 3 3)) (demo_srp (343 / 6 + 1) 1 3 90) (silence 4 2)
       = Inl (ValueError nyquist_msg)
   \<and> spatial_nyquist_check (demo_srp (343 / 6 - 1) 1 3 90) = Inr ()"
  using nyquist_gate [of "demo_srp 100 1 3 90" "returning (silent_spectrum 2 3 3)" "silence 4 2" 1]
  by (simp add: demo_srp_def)

section \<open>The transform stage\<close>

text \<open>
  Claim C5. Whenever the transform library returns a spectrum with the \<open>n_fft div 2 + 1\<close>
  one-sided bins, the transform stage returns; the raw frequency axis is the uniform grid
  of \<open>n_fft div 2 + 1\<close> points from 0 to \<open>fs / 2\<close>, exactly the bins \<open>k\<close> with
  \<open>f_low \<le> raw ! k < f_high\<close> are retained, in their order, and the same selection is
  applied to the frequency axis and to the spectrum: entry \<open>k\<close> of the returned axis and
  bin \<open>k\<close> of the returned spectrum both come from the raw bin \<open>kept ! k\<close>.
\<close>

theorem band_mask_aligned:
  assumes "stft (n_fft s) (hop_length s) (window s) x = Some X"
    and "int (dim1 X) = n_fft s div 2 + 1"
  shows "\<exists>Y f_analog raw kept.
           multi_channel_stft stft s x = Inr (Y, f_analog)
         \<and> torch_linspace 0 (fs s / 2) (n_fft s div 2 + 1) = Inr raw
         \<and> length raw = dim1 X
         \<and> (\<forall>k<length raw. raw ! k =
               (if n_fft s div 2 = 0 then 0
                else real k * (fs s / 2 / real_of_int (n_fft s div 2))))
         \<and> kept = filter (\<lambda>k. f_low s \<le> raw ! k \<and> raw ! k < f_high s) [0..<length raw]
         \<and> f_analog = map (\<lambda>k. raw ! k) kept
         \<and> dim0 Y = dim0 X \<and> dim1 Y = length f_analog \<and> dim2 Y = dim2 X
         \<and> (\<forall>k<length kept. \<forall>ch t. elem Y ch k t = elem X ch (kept ! k) t)"
proof -
  have "0 \<le> n_fft s div 2 + 1" using assms(2) by linarith
  then obtain raw where raw: "torch_linspace 0 (fs s / 2) (n_fft s div 2 + 1) = Inr raw"
    using linspace_nonneg [of "n_fft s div 2 + 1" 0 "fs s / 2"] by auto
  have len: "length raw = dim1 X"
    using linspace_length [OF raw] assms(2) by linarith
  let ?kept = "filter (\<lambda>k. f_low s \<le> raw ! k \<and> raw ! k < f_high s) [0..<length raw]"
  let ?Y = "\<lparr>dim0 = dim0 X, dim1 = length ?kept, dim2 = dim2 X,
             elem = (\<lambda>ch k t. elem X ch (?kept ! k) t)\<rparr>"
  let ?fa = "filter (\<lambda>f. f_low s \<le> f \<and> f < f_high s) raw"
  have run: "multi_channel_stft stft s x = Inr (?Y, ?fa)"
    using multi_channel_stft_eq [of stft s x X raw] assms(1) raw len by simp
  have fa: "?fa = map (\<lambda>k. raw ! k) ?kept"
    by (rule filter_by_index)
  have vals: "\<forall>k<length raw. raw ! k =
               (if n_fft s div 2 = 0 then 0
                else real k * (fs s / 2 / real_of_int (n_fft s div 2)))"
    using linspace_nth [OF raw] by simp
  have "dim0 ?Y = dim0 X" "dim1 ?Y = length ?fa" "dim2 ?Y = dim2 X"
       "\<forall>k<length ?kept. \<forall>ch t. elem ?Y ch k t = elem X ch (?kept ! k) t"
    using fa by simp_all
  with run raw len fa vals show ?thesis by blast
qed

text \<open>
  With bins at 0, 2 and 4 Hz and the band from 1 to 3 Hz, only the bin at 2 Hz is kept;
  the spectrum entry of channel 1 at the kept bin is the raw entry at bin 1.
\<close>

theorem band_mask_aligned_witness:
  "\<exists>Y. multi_channel_stft (returning (spectrum 2 3 1 (\<lambda>ch f t. of_nat (10 * ch + f))))
          (demo_srp (1 / 50) 1 3 90) \<lparr>n_samples = 4, n_channels = 2, sample = (\<lambda>t ch. real t)\<rparr>
        = Inr (Y, [2])
      \<and> dim0 Y = 2 \<and> dim1 Y = 1 \<and> dim2 Y = 1 \<and> elem Y 1 0 0 = 11"
proof -
  let ?X = "spectrum 2 3 1 (\<lambda>ch f t. of_nat (10 * ch + f))"
  let ?s = "demo_srp (1 / 50) 1 3 90"
  let ?x = "\<lparr>n_samples = 4, n_channels = 2, sample = (\<lambda>t ch. real t)\<rparr>"
  have "returning ?X (n_fft ?s) (hop_length ?s) (window ?s) ?x = Some ?X"
    and "int (dim1 ?X) = n_fft ?s div 2 + 1"
    by (simp_all add: returning_def demo_srp_def spectrum_def)
  then obtain Y fa raw kept where a:
      "multi_channel_stft (returning ?X) ?s ?x = Inr (Y, fa)"
      "torch_linspace 0 (fs ?s / 2) (n_fft ?s div 2 + 1) = Inr raw"
      "kept = filter (\<lambda>k. f_low ?s \<le> raw ! k \<and> raw ! k < f_high ?s) [0..<length raw]"
      "fa = map (\<lambda>k. raw ! k) kept"
      "dim0 Y = dim0 ?X" "dim1 Y = length fa" "dim2 Y = dim2 ?X"
      "\<forall>k<length kept. \<forall>ch t. elem Y ch k t = elem ?X ch (kept ! k) t"
    using band_mask_aligned [of "returning ?X" ?s ?x ?X] by blast
  have raw: "raw = [0, 2, 4]" using a(2) demo_linspace by (simp add: demo_srp_def)
  have kept: "kept = [1]" using a(3) by (simp add: raw upt3 demo_srp_def)
  have fa: "fa = [2]" using a(4) by (simp add: kept raw)
  have "elem Y 1 0 0 = elem ?X 1 (kept ! 0) 0" using a(8) kept by simp
  then have "elem Y 1 0 0 = 11" by (simp add: kept spectrum_def)
  moreover have "dim0 Y = 2" "dim1 Y = 1" "dim2 Y = 1"
    using a(5,6,7) by (simp_all add: fa spectrum_def)
  ultimately show ?thesis using a(1) fa by blast
qed

section \<open>An empty frequency band\<close>

text \<open>
  Claim C6, as the code has it. When no frequency bin lies in the band, a run that passes
  the Nyquist check, gets a one-sided spectrum from the transform and has a positive
  resolution raises no error: it returns the angle \<open>- 90\<close> and a power curve whose entries
  are all NaN, one per angle of the grid. The source has no check of the number of
  retained bins.
\<close>

theorem empty_band_returns_nan:
  assumes "spatial_nyquist_check s = Inr ()"
    and "stft (n_fft s) (hop_length s) (window s) x = Some X"
    and "int (dim1 X) = n_fft s div 2 + 1"
    and "torch_linspace 0 (fs s / 2) (n_fft s div 2 + 1) = Inr raw"
    and "\<forall>f\<in>set raw. \<not> (f_low s \<le> f \<and> f < f_high s)"
    and "0 < resolution s"
  shows "forward stft s x = Inr (- 90, replicate (nat \<lfloor>180 / resolution s + 1\<rfloor>) NaN)"
  using assms by (rule forward_empty_band)

text \<open>A band from 5 to 7 Hz between the bins at 4 Hz and (absent) 6 Hz.\<close>

theorem empty_band_returns_nan_witness:
  "forward (returning (silent_spectrum 2 3 3)) (demo_srp (1 / 50) 5 7 90) (silence 4 2)
   = Inr (- 90, [NaN, NaN, NaN])"
  using empty_band_returns_nan [of "demo_srp (1 / 50) 5 7 90" "returning (silent_spectrum 2 3 3)"
          "silence 4 2" "silent_spectrum 2 3 3" "[0, 2, 4]"] demo_linspace
  by (simp add: demo_srp_def returning_def spectrum_def silent_spectrum_def spatial_nyquist_check_def numeral_3_eq_3)

text \<open>
  The claim as stated fails: with \<open>f_low = 3 > f_high = 1\<close> no bin is retained, and the run
  on a silent two-channel waveform of four samples (whose transform is the zero spectrum
  of three frames) returns NaN entries instead of raising.
\<close>

theorem empty_band_counterexample:
  "forward (returning (silent_spectrum 2 3 3)) (demo_srp (1 / 50) 3 1 90) (silence 4 2)
   = Inr (- 90, [NaN, NaN, NaN])"
  using forward_empty_band [of "demo_srp (1 / 50) 3 1 90" "returning (silent_spectrum 2 3 3)"
          "silence 4 2" "silent_spectrum 2 3 3" "[0, 2, 4]"] demo_linspace
  by (simp add: demo_srp_def returning_def spectrum_def silent_spectrum_def spatial_nyquist_check_def numeral_3_eq_3)

section \<open>The angle grid\<close>

text \<open>
  Claim C7, as the code has it. Construction never raises a \<open>ValueError\<close>, whatever the
  resolution. Whenever a run returns, the resolution is positive and the power curve has
  \<open>int (180 / resolution + 1)\<close> entries, which is \<open>180 / resolution + 1\<close> when the
  resolution divides 180 evenly. A run does return when the Nyquist check passes, the
  transform returns the \<open>n_fft div 2 + 1\<close> one-sided bins and the resolution is positive.
\<close>

theorem resolution_grid_length:
  "(\<forall>m. SRP_init d c nfft hop wl rate flo fhi res \<noteq> Inl (ValueError m))
   \<and> (forward stft s x = Inr (doa, curve) \<longrightarrow>
        0 < resolution s \<and> int (length curve) = \<lfloor>180 / resolution s + 1\<rfloor>
        \<and> (\<forall>n::nat. 180 = real n * resolution s \<longrightarrow> length curve = n + 1))
   \<and> (spatial_nyquist_check s = Inr () \<and> stft (n_fft s) (hop_length s) (window s) x = Some X
        \<and> int (dim1 X) = n_fft s div 2 + 1 \<and> 0 < resolution s \<longrightarrow>
        (\<exists>doa' curve'. forward stft s x = Inr (doa', curve')))"
proof -
  have init: "\<forall>m. SRP_init d c nfft hop wl rate flo fhi res \<noteq> Inl (ValueError m)"
    by (auto simp: SRP_init_def hann_window_def split: if_splits)
  have run: "0 < resolution s \<and> int (length curve) = \<lfloor>180 / resolution s + 1\<rfloor>
        \<and> (\<forall>n::nat. 180 = real n * resolution s \<longrightarrow> length curve = n + 1)"
    if fwd: "forward stft s x = Inr (doa, curve)"
  proof -
    obtain Y fa where "srp_ula s Y fa = Inr (doa, curve)"
      using forward_Inr [OF fwd] by blast
    then have pos: "0 < resolution s" and len: "int (length curve) = \<lfloor>180 / resolution s + 1\<rfloor>"
      using srp_ula_Inr by blast+
    have "length curve = n + 1" if div: "180 = real n * resolution s" for n :: nat
    proof -
      have "180 / resolution s = real n" using div pos by (simp add: field_simps)
      then have "180 / resolution s + 1 = real_of_int (int (n + 1))" by simp
      then have "\<lfloor>180 / resolution s + 1\<rfloor> = int (n + 1)"
        by (simp only: floor_of_int)
      then have "int (length curve) = int (n + 1)"
        using len by simp
      then show ?thesis by linarith
    qed
    with pos len show ?thesis by blast
  qed
  have total: "\<exists>doa' curve'. forward stft s x = Inr (doa', curve')"
    if h: "spatial_nyquist_check s = Inr ()" "stft (n_fft s) (hop_length s) (window s) x = Some X"
       "int (dim1 X) = n_fft s div 2 + 1" "0 < resolution s"
    using forward_returns [of s stft x X] h by blast
  from init run total show ?thesis by blast
qed

text \<open>A resolution of 90 degrees divides 180 twice: three angles.\<close>

theorem resolution_grid_length_witness:
  "forward (returning (silent_spectrum 2 3 3)) (demo_srp (1 / 50) 1 3 90) (silence 4 2)
     = Inr (- 90, [Fin 0, Fin 0, Fin 0])
   \<and> 0 < resolution (demo_srp (1 / 50) 1 3 90)
   \<and> (180 :: real) = real 2 * resolution (demo_srp (1 / 50) 1 3 90)
   \<and> length [Fin (0 :: real), Fin 0, Fin 0] = 2 + 1"
proof -
  let ?s = "demo_srp (1 / 50) 1 3 90"
  let ?X = "silent_spectrum 2 3 3"
  have run: "forward (returning ?X) ?s (silence 4 2) = Inr (- 90, [Fin 0, Fin 0, Fin 0])"
    using forward_silent [of ?s "returning ?X" "silence 4 2" ?X "[0, 2, 4]"] demo_linspace
    by (simp add: demo_srp_def returning_def spectrum_def silent_spectrum_def spatial_nyquist_check_def numeral_3_eq_3)
  show ?thesis
    using resolution_grid_length [of "1 / 50" 343 4 2 4 8 1 3 90 "returning ?X" ?s "silence 4 2"
            "- 90" "[Fin 0, Fin 0, Fin 0]" ?X] run
    by (simp add: demo_srp_def)
qed

text \<open>
  The claim as stated fails: a resolution of 100 degrees does not divide 180, yet the
  object is constructed and the run returns a curve of \<open>int (2.8) = 2\<close> entries.
\<close>

theorem resolution_not_validated_counterexample:
  "SRP_init (1 / 50) 343 4 2 4 8 1 3 100 = Inr (demo_srp (1 / 50) 1 3 100)
   \<and> forward (returning (silent_spectrum 2 3 3)) (demo_srp (1 / 50) 1 3 100) (silence 4 2)
       = Inr (- 90, [Fin 0, Fin 0])"
proof -
  let ?s = "demo_srp (1 / 50) 1 3 100"
  let ?X = "silent_spectrum 2 3 3"
  have "\<lfloor>180 / 100 + 1 :: real\<rfloor> = 2" by simp
  then have "forward (returning ?X) ?s (silence 4 2) = Inr (- 90, [Fin 0, Fin 0])"
    using forward_silent [of ?s "returning ?X" "silence 4 2" ?X "[0, 2, 4]"] demo_linspace
    by (simp add: demo_srp_def returning_def spectrum_def silent_spectrum_def spatial_nyquist_check_def numeral_2_eq_2)
  then show ?thesis by (simp add: demo_init)
qed

section \<open>The waveform's shape\<close>



section \<open>The sign of the power curve\<close>




end
